theory Spec2Isabelle
  imports Complex_Main "HOL-Library.Sublist" "HOL-Library.Multiset"
begin

section \<open>Python strings\<close>

text \<open>
  A Python \<open>str\<close> is a sequence of code points. It is modelled as a \<open>string\<close> with one
  \<open>char\<close> per code point, so the model covers the documents whose code points are below
  256 (the Latin-1 repertoire, which is also everything a \<open>latin-1\<close> read can produce).
  The character classes below are those of CPython for that range.
\<close>

definition NL :: char where
  "NL = CHR 0x0A"

definition SP :: char where
  "SP = CHR 0x20"

definition TAB :: char where
  "TAB = CHR 0x09"

definition code :: "char \<Rightarrow> int" where
  "code c = of_char c"

text \<open>\<open>str.isspace\<close> on one character; also the class \<open>\s\<close> of \<open>re\<close>.\<close>

definition is_space :: "char \<Rightarrow> bool" where
  "is_space c = ((9 \<le> code c \<and> code c \<le> 13) \<or> (28 \<le> code c \<and> code c \<le> 32)
     \<or> code c = 133 \<or> code c = 160)"

text \<open>The class \<open>\d\<close> of \<open>re\<close> (decimal digits).\<close>

definition is_digit :: "char \<Rightarrow> bool" where
  "is_digit c = (48 \<le> code c \<and> code c \<le> 57)"

definition is_upper_az :: "char \<Rightarrow> bool" where
  "is_upper_az c = (65 \<le> code c \<and> code c \<le> 90)"

definition is_lower_az :: "char \<Rightarrow> bool" where
  "is_lower_az c = (97 \<le> code c \<and> code c \<le> 122)"

definition is_alpha_az :: "char \<Rightarrow> bool" where
  "is_alpha_az c = (is_upper_az c \<or> is_lower_az c)"

text \<open>The class \<open>\w\<close> of \<open>re\<close> for a \<open>str\<close> pattern: alphanumeric or underscore.\<close>

definition is_word :: "char \<Rightarrow> bool" where
  "is_word c = (is_digit c \<or> is_alpha_az c \<or> code c = 95
     \<or> code c = 170 \<or> code c = 178 \<or> code c = 179 \<or> code c = 181 \<or> code c = 185
     \<or> code c = 186 \<or> code c = 188 \<or> code c = 189 \<or> code c = 190
     \<or> (192 \<le> code c \<and> code c \<le> 214) \<or> (216 \<le> code c \<and> code c \<le> 246)
     \<or> 248 \<le> code c)"

text \<open>\<open>str.lower\<close>: the letters A-Z and the capital letters of Latin-1.\<close>

definition lower_char :: "char \<Rightarrow> char" where
  "lower_char c = (if is_upper_az c \<or> (192 \<le> code c \<and> code c \<le> 222 \<and> code c \<noteq> 215)
     then char_of (code c + 32) else c)"

definition lower :: "string \<Rightarrow> string" where
  "lower s = map lower_char s"

text \<open>
  \<open>s.split("\n")\<close>: the text before the first newline, then the split of the text after
  it; a text without newline is its only line, so \<open>"".split("\n") = [""]\<close>.
\<close>

function split_nl :: "string \<Rightarrow> string list" where
  "split_nl s =
     (case dropWhile (\<lambda>c. c \<noteq> NL) s of
        [] \<Rightarrow> [s]
      | c # rest \<Rightarrow> takeWhile (\<lambda>c. c \<noteq> NL) s # split_nl rest)"
  by pat_completeness auto
termination
proof (relation "measure length")
  show "wf (measure length)" by simp
next
  fix s :: string and c rest
  assume "dropWhile (\<lambda>c. c \<noteq> NL) s = c # rest"
  then have "length (c # rest) \<le> length s"
    by (metis length_dropWhile_le)
  then show "(rest, s) \<in> measure length" by simp
qed

declare split_nl.simps [simp del]

text \<open>\<open>"\n".join(lines)\<close>.\<close>

fun join_nl :: "string list \<Rightarrow> string" where
  "join_nl [] = []"
| "join_nl [l] = l"
| "join_nl (l # ls) = l @ NL # join_nl ls"

text \<open>\<open>s.strip()\<close>: whitespace removed at both ends.\<close>

definition strip :: "string \<Rightarrow> string" where
  "strip s = rev (dropWhile is_space (rev (dropWhile is_space s)))"

text \<open>\<open>k in s\<close> for strings: \<open>k\<close> occurs as a substring of \<open>s\<close>.\<close>

fun contains :: "string \<Rightarrow> string \<Rightarrow> bool" where
  "contains [] k = (k = [])"
| "contains (c # cs) k = (prefix k (c # cs) \<or> contains cs k)"

text \<open>
  \<open>s.replace(old, new)\<close>: the occurrences of \<open>old\<close> are replaced from the left, without
  overlap; an empty \<open>old\<close> matches between all characters.
\<close>

function replace_from :: "string \<Rightarrow> string \<Rightarrow> string \<Rightarrow> string" where
  "replace_from old new [] = []"
| "replace_from old new (c # cs) =
     (if prefix old (c # cs) then new @ replace_from old new (drop (length old - 1) cs)
      else c # replace_from old new cs)"
  by pat_completeness auto
termination
  by (relation "measure (\<lambda>(old, new, s). length s)") auto

definition replace :: "string \<Rightarrow> string \<Rightarrow> string \<Rightarrow> string" where
  "replace s old new =
     (if old = [] then new @ concat (map (\<lambda>c. c # new) s) else replace_from old new s)"

section \<open>Final normalisation\<close>

definition is_hspace :: "char \<Rightarrow> bool" where
  "is_hspace c = (c = SP \<or> c = TAB)"

text \<open>
  \<open>re.sub(r"[ \t]+", " ", text)\<close>: scanning from the left, every maximal run of spaces
  and tabs is one match and becomes one space.
\<close>

function sub_hspace :: "string \<Rightarrow> string" where
  "sub_hspace [] = []"
| "sub_hspace (c # cs) =
     (if is_hspace c then SP # sub_hspace (dropWhile is_hspace cs)
      else c # sub_hspace cs)"
  by pat_completeness auto
termination
  by (relation "measure length") (auto simp: length_dropWhile_le less_Suc_eq_le)

text \<open>
  \<open>re.sub(r"\n{3,}", "\n\n", text)\<close>: the quantifier is greedy, so a match takes a
  whole maximal run of newlines, and a run of one or two newlines is not matched at all.
\<close>

function sub_newlines :: "string \<Rightarrow> string" where
  "sub_newlines [] = []"
| "sub_newlines (c # cs) =
     (if c = NL then
        (if 2 \<le> length (takeWhile (\<lambda>d. d = NL) cs) then [NL, NL]
         else NL # takeWhile (\<lambda>d. d = NL) cs)
        @ sub_newlines (dropWhile (\<lambda>d. d = NL) cs)
      else c # sub_newlines cs)"
  by pat_completeness auto
termination
  by (relation "measure length") (auto simp: length_dropWhile_le less_Suc_eq_le)

text \<open>Lines 204-205 of \<open>extract_text\<close>.\<close>

definition final_normalize :: "string \<Rightarrow> string" where
  "final_normalize text = strip (sub_newlines (sub_hspace text))"

text \<open>
  Two predicates on normalised text: no tab and no two adjacent spaces; no three newlines
  in a row.
\<close>

fun hs_ok :: "string \<Rightarrow> bool" where
  "hs_ok [] = True"
| "hs_ok (c # cs) = (c \<noteq> TAB \<and> (c = SP \<longrightarrow> cs = [] \<or> \<not> is_hspace (hd cs)) \<and> hs_ok cs)"

fun nl_ok :: "string \<Rightarrow> bool" where
  "nl_ok [] = True"
| "nl_ok (c # cs) = (\<not> prefix [NL, NL, NL] (c # cs) \<and> nl_ok cs)"

section \<open>Regular expressions\<close>

text \<open>
  The fragment of Python's \<open>re\<close> that the patterns of \<open>text_cleaner.py\<close> use. A position
  in the subject string is the character before it (\<open>None\<close> at the start of the string)
  and the rest of the string; \<open>ends r p\<close> lists the positions at which a match of \<open>r\<close>
  that starts at \<open>p\<close> can end. The code only asks whether a match exists, which does not
  depend on the order in which the engine tries the alternatives.
\<close>

datatype re =
    Chr "char \<Rightarrow> bool"
  | Bol
  | Eol
  | Wordb
  | Eps
  | Seq re re
  | Alt re re
  | Star re

type_synonym pos = "char option \<times> string"

definition word_before :: "pos \<Rightarrow> bool" where
  "word_before p = (case fst p of None \<Rightarrow> False | Some c \<Rightarrow> is_word c)"

definition word_after :: "pos \<Rightarrow> bool" where
  "word_after p = (case snd p of [] \<Rightarrow> False | c # cs \<Rightarrow> is_word c)"

text \<open>\<open>$\<close> without MULTILINE: the end of the string, or just before a final newline.\<close>

definition at_eol :: "pos \<Rightarrow> bool" where
  "at_eol p = (snd p = [] \<or> snd p = [NL])"

text \<open>
  Repetition: an iteration that consumes nothing leads to no new position, so only
  iterations that consume a character are followed, at most one per remaining character.
\<close>

primrec star_from :: "(pos \<Rightarrow> pos list) \<Rightarrow> nat \<Rightarrow> pos \<Rightarrow> pos list" where
  "star_from f 0 p = [p]"
| "star_from f (Suc n) p =
     p # concat (map (star_from f n) (filter (\<lambda>q. length (snd q) < length (snd p)) (f p)))"

primrec ends :: "re \<Rightarrow> pos \<Rightarrow> pos list" where
  "ends (Chr P) p = (case snd p of [] \<Rightarrow> [] | c # cs \<Rightarrow> if P c then [(Some c, cs)] else [])"
| "ends Bol p = (if fst p = None then [p] else [])"
| "ends Eol p = (if at_eol p then [p] else [])"
| "ends Wordb p = (if word_before p \<noteq> word_after p then [p] else [])"
| "ends Eps p = [p]"
| "ends (Seq a b) p = concat (map (ends b) (ends a p))"
| "ends (Alt a b) p = ends a p @ ends b p"
| "ends (Star a) p = star_from (ends a) (length (snd p)) p"

text \<open>\<open>re.match(pattern, s)\<close> as a truth value: a match that starts at the start of \<open>s\<close>.\<close>

definition re_match :: "re \<Rightarrow> string \<Rightarrow> bool" where
  "re_match r s = (ends r (None, s) \<noteq> [])"

fun positions :: "char option \<Rightarrow> string \<Rightarrow> pos list" where
  "positions prev [] = [(prev, [])]"
| "positions prev (c # cs) = (prev, c # cs) # positions (Some c) cs"

text \<open>\<open>pattern.search(s)\<close> as a truth value: a match that starts anywhere in \<open>s\<close>.\<close>

definition re_search :: "re \<Rightarrow> string \<Rightarrow> bool" where
  "re_search r s = list_ex (\<lambda>p. ends r p \<noteq> []) (positions None s)"

text \<open>
  \<open>re.findall\<close> of a pattern \<open>[...]+\<close> over one character class: the maximal runs of
  characters of the class, from the left.
\<close>

function findall_runs :: "(char \<Rightarrow> bool) \<Rightarrow> string \<Rightarrow> string list" where
  "findall_runs P [] = []"
| "findall_runs P (c # cs) =
     (if P c then (c # takeWhile P cs) # findall_runs P (dropWhile P cs)
      else findall_runs P cs)"
  by pat_completeness auto
termination
  by (relation "measure (\<lambda>(P, s). length s)") (auto simp: length_dropWhile_le less_Suc_eq_le)

subsection \<open>Pattern syntax\<close>

definition seqs :: "re list \<Rightarrow> re" where
  "seqs rs = foldr Seq rs Eps"

definition alts :: "re \<Rightarrow> re list \<Rightarrow> re" where
  "alts r rs = foldr Alt (butlast (r # rs)) (last (r # rs))"

definition Plus :: "re \<Rightarrow> re" where
  "Plus r = Seq r (Star r)"

definition Opt :: "re \<Rightarrow> re" where
  "Opt r = Alt r Eps"

text \<open>
  A literal character under IGNORECASE: within Latin-1 it matches the subject characters
  with the same lowercase form.
\<close>

definition ci_char :: "char \<Rightarrow> re" where
  "ci_char c = Chr (\<lambda>d. lower_char d = lower_char c)"

definition ci :: "string \<Rightarrow> re" where
  "ci s = seqs (map ci_char s)"

text \<open>\<open>.\<close> without DOTALL, \<open>\s\<close>, \<open>\d\<close>, \<open>\w\<close>, and \<open>[a-z]\<close> under IGNORECASE.\<close>

definition dot :: re where
  "dot = Chr (\<lambda>c. c \<noteq> NL)"

definition ws :: re where
  "ws = Chr is_space"

definition digit :: re where
  "digit = Chr is_digit"

definition wordc :: re where
  "wordc = Chr is_word"

definition az_ci :: re where
  "az_ci = Chr is_alpha_az"

section \<open>The constants of \<open>text_cleaner.py\<close>\<close>

definition BOILERPLATE :: "string list" where
  "BOILERPLATE =
     [''Board of Governors of the Federal Reserve System'',
      ''Back to top'',
      ''Return to text'',
      ''Skip to main content'',
      ''Accessibility'',
      ''Contact Us'',
      ''Last Update:'',
      ''Home |'',
      ''| Privacy'']"

text \<open>The patterns are used with \<open>re.IGNORECASE\<close> only, which is part of their translation.\<close>

definition REMOVE_LINE_PATTERNS :: "re list" where
  "REMOVE_LINE_PATTERNS =
     [seqs [Bol, Star ws, ci ''PRESENT'', Star ws, ci '':'', Star dot, Eol],
      seqs [Bol, Star ws, ci ''ATTENDEE'', Opt (ci ''S''), Star ws, ci '':'', Star dot, Eol],
      seqs [Bol, Star ws, ci ''ATTENDING'', Star ws, ci '':'', Star dot, Eol],
      seqs [Bol, Star ws, ci ''Attended'', Star dot, ci ''session'', Star dot, Eol],
      ci ''Return to text'',
      seqs [Plus digit, ci ''.'', Star ws, ci ''Return to text''],
      seqs [ci ''Footnote'', Star ws, Plus digit],
      seqs [Bol, Star ws, Plus digit, Star ws, Eol],
      seqs [Bol, Star ws, az_ci, ci ''.'', Star ws, Eol],
      seqs [Bol, Star ws, ci ''('', Plus digit, ci '')'', Star ws, Eol],
      seqs [Bol, Star ws, ci ''('', az_ci, ci '')'', Star ws, Eol],
      seqs [Bol, Plus (Chr (\<lambda>c. is_space c \<or> c = CHR ''-'' \<or> c = CHR ''_'' \<or> c = CHR ''='')), Eol],
      seqs [Bol, Star dot, ci ''http'', Opt (ci ''s''), ci ''://'', Star dot, Eol],
      seqs [Bol, Star dot, Wordb, ci ''PDF'', Wordb, Star dot, Eol],
      seqs [Bol, Star dot, ci ''.pdf'', Wordb, Star dot, Eol]]"

definition NARRATIVE_KEYWORDS :: "string list" where
  "NARRATIVE_KEYWORDS =
     [''inflation'', ''policy'', ''rate'', ''funds'', ''market'', ''economic'', ''growth'',
      ''financial'', ''committee'', ''participants'', ''staff'', ''balance'', ''sheet'',
      ''reserve'', ''credit'', ''risk'', ''employment'', ''output'', ''gdp'', ''prices'',
      ''labor'', ''wage'', ''supply'', ''demand'', ''investment'', ''spending'',
      ''unemployment'', ''ioer'', ''iorb'', ''rrp'', ''soma'', ''balance sheet'', ''runoff'',
      ''transmission'', ''forecast'', ''projection'', ''estimate'', ''assessment'',
      ''decision'', ''rationale'', ''tools'',
      ''mbs'', ''mortgage-backed'', ''mortgage backed'', ''treasury'', ''treasuries'',
      ''qe'', ''qt'', ''quantitative easing'', ''quantitative tightening'',
      ''repo'', ''reverse repo'', ''repurchase'',
      ''discount window'', ''primary credit'', ''secondary credit'',
      ''standing repo facility'', ''srf'',
      ''facility'', ''facilities'',
      ''swap'', ''swap lines'', ''fima'',
      ''liquidity'',
      ''open market'', ''desk'', ''soma operations'']"

definition VERB_PATTERN :: re where
  "VERB_PATTERN =
     seqs [Wordb,
       alts (ci ''is'') [ci ''are'', ci ''was'', ci ''were'', ci ''be'', ci ''been'', ci ''being'',
         ci ''has'', ci ''have'', ci ''had'', ci ''will'', ci ''would'', ci ''should'', ci ''can'',
         ci ''could'', ci ''may'', ci ''might'', ci ''does'', ci ''do'', ci ''did'',
         Seq (Plus wordc) (ci ''ing''), Seq (Plus wordc) (ci ''ed'')],
       Wordb]"

text \<open>The character class of \<open>[A-Za-z']+\<close>, and that of \<open>[A-Za-z0-9']+\<close>.\<close>

definition word_char :: "char \<Rightarrow> bool" where
  "word_char c = (is_alpha_az c \<or> c = CHR 0x27)"

definition token_char :: "char \<Rightarrow> bool" where
  "token_char c = (is_alpha_az c \<or> is_digit c \<or> c = CHR 0x27)"

section \<open>Line cleaning and classification\<close>

text \<open>\<open>_remove_boilerplate\<close>: the phrases are replaced one after the other.\<close>

definition remove_boilerplate :: "string \<Rightarrow> string" where
  "remove_boilerplate text = foldl (\<lambda>t phrase. replace t phrase '' '') text BOILERPLATE"

text \<open>
  The inner loop of \<open>_remove_line_artifacts\<close>, which is also the first loop of
  \<open>_line_is_garbage\<close>: does some pattern match the stripped line?
\<close>

definition matches_remove_pattern :: "string \<Rightarrow> bool" where
  "matches_remove_pattern line = list_ex (\<lambda>pattern. re_match pattern (strip line)) REMOVE_LINE_PATTERNS"

fun drop_artifact_lines :: "string list \<Rightarrow> string list" where
  "drop_artifact_lines [] = []"
| "drop_artifact_lines (line # lines) =
     (if matches_remove_pattern line then drop_artifact_lines lines
      else line # drop_artifact_lines lines)"

definition remove_line_artifacts :: "string \<Rightarrow> string" where
  "remove_line_artifacts text = join_nl (drop_artifact_lines (split_nl text))"

definition line_is_narrative :: "string \<Rightarrow> bool" where
  "line_is_narrative line =
     (let low = lower line in
      if list_ex (\<lambda>k. contains low k) NARRATIVE_KEYWORDS then True
      else if re_search VERB_PATTERN line then
        (let words = findall_runs word_char line in
         if 6 \<le> length words then True else False)
      else False)"

definition line_is_garbage :: "string \<Rightarrow> bool" where
  "line_is_garbage line =
     (if matches_remove_pattern line then True
      else
        (let words = findall_runs word_char line in
         if 6 \<le> length words then
           (let comma_count = count_list line (CHR '','') in
            if 3 \<le> comma_count \<and> \<not> re_search VERB_PATTERN line then True else False)
         else False))"

text \<open>Lines 183-188 of \<open>extract_text\<close>: the loop that builds \<open>kept_lines\<close>.\<close>

fun keep_lines :: "string list \<Rightarrow> string list" where
  "keep_lines [] = []"
| "keep_lines (line # lines) =
     (if line_is_narrative line then line # keep_lines lines
      else if \<not> line_is_garbage line then line # keep_lines lines
      else keep_lines lines)"

text \<open>\<open>tokenize\<close>.\<close>

definition tokenize :: "string \<Rightarrow> string list" where
  "tokenize text = map lower (findall_runs token_char text)"

section \<open>Python floats\<close>

text \<open>
  A finite Python \<open>float\<close> is an IEEE 754 binary64 number and is modelled by its exact
  value, a rational. An arithmetic operation computes the exact result and rounds it to
  the nearest binary64 value, ties to the even significand (\<open>fl\<close>). Infinities and NaN
  are not modelled: the ratios of this program lie between 0 and 1.
\<close>

type_synonym pyfloat = rat

text \<open>\<open>int.bit_length\<close> of a positive integer.\<close>

function bit_length :: "int \<Rightarrow> int" where
  "bit_length n = (if n \<le> 0 then 0 else 1 + bit_length (n div 2))"
  by pat_completeness auto
termination
  by (relation "measure nat") auto

definition pow2 :: "int \<Rightarrow> rat" where
  "pow2 e = (if 0 \<le> e then 2 ^ nat e else 1 / 2 ^ nat (- e))"

text \<open>The binary exponent of a positive rational \<open>x\<close>: \<open>2 ^ e \<le> x < 2 ^ (e + 1)\<close>.\<close>

definition exponent :: "rat \<Rightarrow> int" where
  "exponent x =
     (let k = bit_length (fst (quotient_of x)) - bit_length (snd (quotient_of x))
      in if pow2 k \<le> x then k else k - 1)"

definition round_half_even :: "rat \<Rightarrow> int" where
  "round_half_even q =
     (let f = \<lfloor>q\<rfloor>; r = q - of_int f
      in if r < 1 / 2 then f else if 1 / 2 < r then f + 1 else if even f then f else f + 1)"

text \<open>
  Rounding to binary64: 53 significant bits, and the spacing of the subnormal numbers
  below \<open>2 ^ - 1022\<close>.
\<close>

definition fl :: "rat \<Rightarrow> pyfloat" where
  "fl x =
     (if x = 0 then 0
      else
        (let ulp = pow2 (max (exponent \<bar>x\<bar>) (- 1022) - 52)
         in sgn x * of_int (round_half_even (\<bar>x\<bar> / ulp)) * ulp))"

text \<open>\<open>a / b\<close> on two lengths (true division of integers, correctly rounded), \<open>x - y\<close>, \<open>x + y\<close>
  and \<open>x / y\<close> on floats.\<close>

definition int_truediv :: "int \<Rightarrow> int \<Rightarrow> pyfloat" where
  "int_truediv a b = fl (of_int a / of_int b)"

definition fsub :: "pyfloat \<Rightarrow> pyfloat \<Rightarrow> pyfloat" where
  "fsub x y = fl (x - y)"



text \<open>A decimal literal of the source, such as \<open>0.4\<close>, denotes the nearest float.\<close>

definition DEFAULT_REMOVAL_GUARD :: pyfloat where
  "DEFAULT_REMOVAL_GUARD = fl (4 / 10)"

section \<open>\<open>extract_text\<close>\<close>

text \<open>
  Lines 192-197: the sanity guard. \<open>removal_guard = None\<close> selects the default threshold,
  so the test \<open>guard is not None\<close> always holds; \<open>base_chars\<close> is tested for being
  non-zero. The message printed on a fallback is not part of the model.
\<close>

definition guard_of :: "pyfloat option \<Rightarrow> pyfloat" where
  "guard_of removal_guard = (case removal_guard of Some g \<Rightarrow> g | None \<Rightarrow> DEFAULT_REMOVAL_GUARD)"

definition removed_ratio :: "string \<Rightarrow> string \<Rightarrow> pyfloat" where
  "removed_ratio baseline cleaned = fsub 1 (int_truediv (int (length cleaned)) (int (length baseline)))"

definition apply_guard :: "string \<Rightarrow> string \<Rightarrow> pyfloat option \<Rightarrow> string" where
  "apply_guard baseline cleaned removal_guard =
     (let guard = guard_of removal_guard; base_chars = length baseline
      in if base_chars \<noteq> 0 then
           (if guard < removed_ratio baseline cleaned then baseline else cleaned)
         else cleaned)"

text \<open>Lines 178-189: the baseline and the text filtered line by line.\<close>

definition filter_baseline :: "string \<Rightarrow> string" where
  "filter_baseline baseline = join_nl (keep_lines (split_nl baseline))"

text \<open>Lines 177-198: the branch \<open>is_fomc\<close>, before the final normalisation.\<close>

definition strict_clean :: "string \<Rightarrow> pyfloat option \<Rightarrow> string" where
  "strict_clean text removal_guard =
     (let baseline = remove_line_artifacts text;
          cleaned = filter_baseline baseline
      in apply_guard baseline cleaned removal_guard)"

text \<open>
  Lines 158-171 belong to BeautifulSoup: parsing, removing the comments, choosing the
  main node, removing the tags of \<open>STRIP_TAGS\<close> and \<open>get_text("\n", strip=True)\<close>. Their
  result, the text of the main node, is the parameter \<open>main_text\<close>.
\<close>

definition extract_text :: "(string \<Rightarrow> string) \<Rightarrow> string \<Rightarrow> bool \<Rightarrow> pyfloat option \<Rightarrow> string" where
  "extract_text main_text html is_fomc removal_guard =
     (let text = remove_boilerplate (main_text html);
          text = (if is_fomc then strict_clean text removal_guard
                  else remove_line_artifacts text)
      in final_normalize text)"

section \<open>Files and the tree walk\<close>

datatype py_error = OSError | StatisticsError

text \<open>
  An HTML file of the input tree, as \<open>process_file\<close> sees it: its path, what each of the
  two \<open>read_text\<close> calls returns (\<open>None\<close>: the call raises), and whether creating the
  output directory and writing the output file succeed.
\<close>

record html_file =
  path :: string
  utf8_text :: "string option"
  latin1_text :: "string option"
  writable :: bool

text \<open>A \<open>Counter\<close> of tokens is a multiset; the output tree maps a path to its content.\<close>

type_synonym counter = "string multiset"

type_synonym out_tree = "string \<rightharpoonup> string"

text \<open>The \<open>try\<close>/\<open>except\<close> at the head of \<open>process_file\<close> and of the loop of \<open>process_tree\<close>.\<close>

definition read_html :: "html_file \<Rightarrow> py_error + string" where
  "read_html f =
     (case utf8_text f of
        Some html \<Rightarrow> Inr html
      | None \<Rightarrow> (case latin1_text f of Some html \<Rightarrow> Inr html | None \<Rightarrow> Inl OSError))"

text \<open>
  \<open>process_file\<close>. The output path is computed by pathlib,
  \<open>(output_root / path.relative_to(input_root)).with_suffix(".txt")\<close>, the parameter
  \<open>out_path\<close>. The result is the returned value and the output tree.
\<close>

definition process_file ::
  "(string \<Rightarrow> string) \<Rightarrow> (string \<Rightarrow> string) \<Rightarrow> html_file \<Rightarrow> bool \<Rightarrow> pyfloat option \<Rightarrow> out_tree
     \<Rightarrow> py_error + ((nat \<times> nat \<times> counter) option \<times> out_tree)" where
  "process_file main_text out_path f is_fomc removal_guard out =
     (case read_html f of
        Inl e \<Rightarrow> Inl e
      | Inr html \<Rightarrow>
          (let cleaned = extract_text main_text html is_fomc removal_guard
           in if cleaned = [] then Inr (None, out)
              else
                (let tokens = tokenize cleaned
                 in if writable f
                    then Inr (Some (length cleaned, length tokens, mset tokens),
                              out(out_path (path f) \<mapsto> cleaned))
                    else Inl OSError)))"

text \<open>\<open>compute_removed_lines\<close>.\<close>

fun removed_loop :: "string list \<Rightarrow> counter \<Rightarrow> string list" where
  "removed_loop [] c_counts = []"
| "removed_loop (line # lines) c_counts =
     (if 0 < count c_counts line then removed_loop lines (c_counts - {#line#})
      else line # removed_loop lines c_counts)"

definition compute_removed_lines :: "string \<Rightarrow> string \<Rightarrow> string list" where
  "compute_removed_lines baseline cleaned = removed_loop (split_nl baseline) (mset (split_nl cleaned))"

record tree_state =
  total_files :: nat
  total_chars :: nat
  total_tokens :: nat
  counter :: counter
  removal_ratios :: "pyfloat list"
  removed_collector :: "string list option"
  out_tree :: out_tree

text \<open>Lines 302-314: the removal ratio of one file and the record of its removed lines.\<close>

definition profile_file :: "string \<Rightarrow> string \<Rightarrow> string \<Rightarrow> bool \<Rightarrow> tree_state \<Rightarrow> tree_state" where
  "profile_file p baseline cleaned_for_stats is_fomc st =
     (if baseline \<noteq> [] then
        (let ratio = fsub 1 (int_truediv (int (length cleaned_for_stats)) (int (length baseline)));
             st = st\<lparr>removal_ratios := removal_ratios st @ [max 0 (min 1 ratio)]\<rparr>
         in case removed_collector st of
              Some collected \<Rightarrow>
                if is_fomc then
                  (let removed_lines = compute_removed_lines baseline cleaned_for_stats
                   in if removed_lines \<noteq> []
                      then st\<lparr>removed_collector :=
                             Some (collected @ [''=== File: '' @ p] @ removed_lines @ [''''])\<rparr>
                      else st)
                else st
            | None \<Rightarrow> st)
      else st)"

text \<open>The loop of \<open>process_tree\<close> over \<open>paths\<close>; an exception ends it.\<close>

fun tree_loop ::
  "(string \<Rightarrow> string) \<Rightarrow> (string \<Rightarrow> string) \<Rightarrow> bool \<Rightarrow> pyfloat option \<Rightarrow> html_file list
     \<Rightarrow> tree_state \<Rightarrow> py_error + tree_state" where
  "tree_loop main_text out_path is_fomc removal_guard [] st = Inr st"
| "tree_loop main_text out_path is_fomc removal_guard (p # paths) st =
     (case read_html p of
        Inl e \<Rightarrow> Inl e
      | Inr html \<Rightarrow>
          (let baseline = extract_text main_text html False None;
               cleaned_for_stats = extract_text main_text html is_fomc removal_guard;
               st = profile_file (path p) baseline cleaned_for_stats is_fomc st
           in case process_file main_text out_path p is_fomc removal_guard (out_tree st) of
                Inl e \<Rightarrow> Inl e
              | Inr (None, out) \<Rightarrow>
                  tree_loop main_text out_path is_fomc removal_guard paths (st\<lparr>out_tree := out\<rparr>)
              | Inr (Some (chars, tokens, local_counter), out) \<Rightarrow>
                  tree_loop main_text out_path is_fomc removal_guard paths
                    (st\<lparr>total_files := total_files st + 1,
                       total_chars := total_chars st + chars,
                       total_tokens := total_tokens st + tokens,
                       counter := counter st + local_counter,
                       out_tree := out\<rparr>)))"

text \<open>
  \<open>process_tree\<close>. \<open>paths\<close> is the list of line 287, the files with an HTML suffix that
  \<open>rglob\<close> finds under the input root; \<open>out\<close> is the output tree before the run. The
  final state holds the returned tuple, the collector and the output tree.
\<close>

definition process_tree ::
  "(string \<Rightarrow> string) \<Rightarrow> (string \<Rightarrow> string) \<Rightarrow> html_file list \<Rightarrow> bool \<Rightarrow> pyfloat option
     \<Rightarrow> string list option \<Rightarrow> out_tree \<Rightarrow> py_error + tree_state" where
  "process_tree main_text out_path paths is_fomc removal_guard collector out =
     tree_loop main_text out_path is_fomc removal_guard paths
       \<lparr>total_files = 0, total_chars = 0, total_tokens = 0, counter = {#},
        removal_ratios = [], removed_collector = collector, out_tree = out\<rparr>"

text \<open>The statistics that \<open>process_tree\<close> sums over the files, and the output tree.\<close>

definition aggregates :: "tree_state \<Rightarrow> nat \<times> nat \<times> nat \<times> counter \<times> out_tree" where
  "aggregates st = (total_files st, total_chars st, total_tokens st, counter st, out_tree st)"

section \<open>The corpus profiler\<close>



section \<open>Example documents\<close>

text \<open>
  A document without markup, for which the text of the main node is the document itself:
  a roster line (six words, three commas, no verb, no keyword) and a line that starts
  with a boilerplate phrase. \<open>roster_text\<close> is the same document after
  \<open>_remove_boilerplate\<close>.
\<close>

definition roster_doc :: string where
  "roster_doc = ''a,b,c,d e f\<newline>Back to top xxxxxxxxxxxxxxxxxxxx''"

definition roster_text :: string where
  "roster_text = ''a,b,c,d e f\<newline>  xxxxxxxxxxxxxxxxxxxx''"

text \<open>
  Three files: a readable one, one that holds a separator line only, so that its cleaned
  text is empty, and one that cannot be read.
\<close>

definition hello_file :: html_file where
  "hello_file = \<lparr>path = ''a.html'', utf8_text = Some ''Hello world, hello'',
     latin1_text = Some ''Hello world, hello'', writable = True\<rparr>"

definition separator_file :: html_file where
  "separator_file = \<lparr>path = ''b.html'', utf8_text = Some ''---'', latin1_text = Some ''---'',
     writable = True\<rparr>"

definition unreadable_file :: html_file where
  "unreadable_file = \<lparr>path = ''c.html'', utf8_text = None, latin1_text = None,
     writable = True\<rparr>"

text \<open>
  An output path for the examples: the relative path with its suffix replaced, as
  \<open>with_suffix(".txt")\<close> does for a file name that has a suffix.
\<close>

definition txt_path :: "string \<Rightarrow> string" where
  "txt_path p = rev (tl (dropWhile (\<lambda>c. c \<noteq> CHR ''.'') (rev p))) @ ''.txt''"

text \<open>What \<open>process_tree\<close> returns for the tree that holds \<open>hello_file\<close> only.\<close>

definition hello_stats :: tree_state where
  "hello_stats = \<lparr>total_files = 1, total_chars = 18, total_tokens = 3,
     counter = mset [''hello'', ''world'', ''hello''], removal_ratios = [0],
     removed_collector = None, out_tree = [''a.txt'' \<mapsto> ''Hello world, hello'']\<rparr>"

section \<open>Lines of a text\<close>

lemma split_nl_Nil [simp]: "split_nl [] = [[]]"
  by (simp add: split_nl.simps)

lemma split_nl_Cons [simp]:
  "split_nl (c # cs) =
     (if c = NL then [] # split_nl cs else (c # hd (split_nl cs)) # tl (split_nl cs))"
proof (cases "c = NL")
  case True
  then show ?thesis by (simp add: split_nl.simps[of "NL # cs"])
next
  case False
  define d where "d = dropWhile (\<lambda>c. c \<noteq> NL) cs"
  have 1: "split_nl (c # cs) =
      (case d of [] \<Rightarrow> [c # cs] | e # rest \<Rightarrow> (c # takeWhile (\<lambda>c. c \<noteq> NL) cs) # split_nl rest)"
    using False by (simp add: split_nl.simps[of "c # cs"] d_def cong: list.case_cong)
  have 2: "split_nl cs =
      (case d of [] \<Rightarrow> [cs] | e # rest \<Rightarrow> takeWhile (\<lambda>c. c \<noteq> NL) cs # split_nl rest)"
    by (simp add: split_nl.simps[of cs] d_def)
  show ?thesis unfolding 1 2 using False by (cases d) simp_all
qed

lemma split_nl_not_Nil: "split_nl s \<noteq> []"
  by (induction s) auto

lemma split_nl_no_NL: "l \<in> set (split_nl s) \<Longrightarrow> NL \<notin> set l"
proof (induction s arbitrary: l)
  case Nil
  then show ?case by simp
next
  case (Cons c cs)
  obtain h t where ht: "split_nl cs = h # t"
    using split_nl_not_Nil[of cs] by (cases "split_nl cs") auto
  show ?case
  proof (cases "c = NL")
    case True
    with Cons show ?thesis by auto
  next
    case False
    with Cons.prems ht have "l = c # h \<or> l \<in> set t" by simp
    moreover have "NL \<notin> set h" "\<And>x. x \<in> set t \<Longrightarrow> NL \<notin> set x"
      using Cons.IH ht by simp_all
    ultimately show ?thesis using False by auto
  qed
qed

lemma split_nl_line: "NL \<notin> set l \<Longrightarrow> split_nl l = [l]"
  by (induction l) auto

lemma split_nl_append: "NL \<notin> set l \<Longrightarrow> split_nl (l @ NL # rest) = l # split_nl rest"
  by (induction l) auto

lemma split_join:
  "ls \<noteq> [] \<Longrightarrow> (\<And>l. l \<in> set ls \<Longrightarrow> NL \<notin> set l) \<Longrightarrow> split_nl (join_nl ls) = ls"
proof (induction ls rule: join_nl.induct)
  case 1
  then show ?case by simp
next
  case (2 l)
  then show ?case by (simp add: split_nl_line)
next
  case (3 l v va)
  then show ?case by (simp add: split_nl_append)
qed

lemma keep_lines_filter:
  "keep_lines ls = filter (\<lambda>line. line_is_narrative line \<or> \<not> line_is_garbage line) ls"
  by (induction ls) auto

lemma dropWhile_hd: "dropWhile P xs \<noteq> [] \<Longrightarrow> \<not> P (hd (dropWhile P xs))"
  by (induction xs) auto

lemma dropWhile_same: "xs \<noteq> [] \<Longrightarrow> \<not> P (hd xs) \<Longrightarrow> dropWhile P xs = xs"
  by (cases xs) auto

section \<open>Values of the float operations\<close>

lemma fl_tenths:
  "fl (4 / 10) = 3602879701896397 / 9007199254740992"
  "fl (10 / 100) = 3602879701896397 / 36028797018963968"
  "fl (30 / 100) = 5404319552844595 / 18014398509481984"
  "fl (60 / 100) = 5404319552844595 / 9007199254740992"
  "fl (2 / 10) = 3602879701896397 / 18014398509481984"
  "fl (3 / 10) = 5404319552844595 / 18014398509481984"
  "fl (5 / 10) = 1 / 2"
  "fl (6 / 10) = 5404319552844595 / 9007199254740992"
  "fl (9 / 10) = 8106479329266893 / 9007199254740992"
  by code_simp+

lemma ratio_550_1000:
  "fsub 1 (int_truediv 550 1000) = 2026619832316723 / 4503599627370496"
  by code_simp

lemma ratio_22_34:
  "fsub 1 (int_truediv 22 34) = 3179011501673291 / 9007199254740992"
  by code_simp

lemma ratio_18_18:
  "fsub 1 (int_truediv 18 18) = 0"
  by code_simp


section \<open>The example documents, evaluated\<close>

lemma roster_boilerplate: "remove_boilerplate roster_doc = roster_text"
  by code_simp

lemma roster_artifacts: "remove_line_artifacts roster_text = roster_text"
  by code_simp

lemma roster_filtered: "filter_baseline roster_text = ''  xxxxxxxxxxxxxxxxxxxx''"
  by code_simp

lemma roster_kept: "keep_lines (split_nl roster_text) = [''  xxxxxxxxxxxxxxxxxxxx'']"
  by code_simp

lemma roster_lengths:
  "int (length roster_text) = 34"
  "int (length ''  xxxxxxxxxxxxxxxxxxxx'') = 22"
  by (simp_all add: roster_text_def)

lemma roster_ratio:
  "removed_ratio roster_text ''  xxxxxxxxxxxxxxxxxxxx'' = 3179011501673291 / 9007199254740992"
  unfolding removed_ratio_def roster_lengths by (rule ratio_22_34)

lemma roster_normal:
  "final_normalize ''  xxxxxxxxxxxxxxxxxxxx'' = ''xxxxxxxxxxxxxxxxxxxx''"
  "final_normalize roster_text = ''a,b,c,d e f\<newline> xxxxxxxxxxxxxxxxxxxx''"
  by code_simp+

lemma roster_lines:
  "split_nl roster_text = [''a,b,c,d e f'', ''  xxxxxxxxxxxxxxxxxxxx'']"
  "split_nl ''a,b,c,d e f\<newline> xxxxxxxxxxxxxxxxxxxx''
     = [''a,b,c,d e f'', '' xxxxxxxxxxxxxxxxxxxx'']"
  "split_nl ''xxxxxxxxxxxxxxxxxxxx'' = [''xxxxxxxxxxxxxxxxxxxx'']"
  "split_nl ''a,b,c,d e f'' = [''a,b,c,d e f'']"
  by code_simp+

text \<open>
  The roster document in strict mode: its filter removes 35 percent of the baseline, so
  the guards 0.4 (also the default) and above keep the filtered text and the guard 0.3
  reverts to the baseline.
\<close>

lemma roster_clean_keeps: "strict_clean roster_text (Some (fl (4 / 10))) = ''  xxxxxxxxxxxxxxxxxxxx''"
  unfolding strict_clean_def apply_guard_def guard_of_def roster_artifacts roster_filtered
    roster_ratio fl_tenths Let_def
  by simp

lemma roster_clean_reverts: "strict_clean roster_text (Some (fl (3 / 10))) = roster_text"
  unfolding strict_clean_def apply_guard_def guard_of_def roster_artifacts roster_filtered
    roster_ratio fl_tenths Let_def
  by (simp add: roster_text_def)

lemma roster_strict_keeps:
  "extract_text id roster_doc True (Some (fl (4 / 10))) = ''xxxxxxxxxxxxxxxxxxxx''"
  unfolding extract_text_def Let_def id_apply roster_boilerplate
  by (simp only: if_True roster_clean_keeps roster_normal)

lemma roster_strict_default: "extract_text id roster_doc True None = ''xxxxxxxxxxxxxxxxxxxx''"
proof -
  have "strict_clean roster_text None = strict_clean roster_text (Some (fl (4 / 10)))"
    by (simp add: strict_clean_def apply_guard_def guard_of_def DEFAULT_REMOVAL_GUARD_def)
  then show ?thesis
    unfolding extract_text_def Let_def id_apply roster_boilerplate
    by (simp only: if_True roster_clean_keeps roster_normal)
qed

lemma roster_strict_reverts:
  "extract_text id roster_doc True (Some (fl (3 / 10))) = ''a,b,c,d e f\<newline> xxxxxxxxxxxxxxxxxxxx''"
  unfolding extract_text_def Let_def id_apply roster_boilerplate
  by (simp only: if_True roster_clean_reverts roster_normal)

lemma roster_light: "extract_text id roster_doc False g = ''a,b,c,d e f\<newline> xxxxxxxxxxxxxxxxxxxx''"
  unfolding extract_text_def Let_def id_apply roster_boilerplate
  by (simp only: if_False roster_artifacts roster_normal)

text \<open>A text that is one roster line: the filter removes every line.\<close>

lemma roster_line_filtered: "filter_baseline ''a,b,c,d e f'' = ''''"
  by code_simp

section \<open>The tree walk, step by step\<close>

lemma size_tokens:
  "process_file main_text out_path f is_fomc g out = Inr (Some (chars, tokens, c), out')
   \<Longrightarrow> tokens = size c"
  by (auto simp: process_file_def Let_def split: sum.splits if_splits)

lemma profile_file_keeps:
  "total_files (profile_file p b c is_fomc st) = total_files st"
  "total_chars (profile_file p b c is_fomc st) = total_chars st"
  "total_tokens (profile_file p b c is_fomc st) = total_tokens st"
  "counter (profile_file p b c is_fomc st) = counter st"
  "out_tree (profile_file p b c is_fomc st) = out_tree st"
  by (auto simp: profile_file_def Let_def split: option.splits)

lemma tree_loop_tokens:
  "tree_loop main_text out_path is_fomc g paths st = Inr st' \<Longrightarrow> total_tokens st = size (counter st)
   \<Longrightarrow> total_tokens st' = size (counter st')"
proof (induction paths arbitrary: st)
  case Nil
  then show ?case by simp
next
  case (Cons p paths)
  from Cons.prems(1) obtain html where html: "read_html p = Inr html"
    by (cases "read_html p") auto
  define st1 where "st1 = profile_file (path p) (extract_text main_text html False None)
      (extract_text main_text html is_fomc g) is_fomc st"
  have inv1: "total_tokens st1 = size (counter st1)"
    using Cons.prems(2) by (simp add: st1_def profile_file_keeps)
  from Cons.prems(1) html obtain r out where pf:
    "process_file main_text out_path p is_fomc g (out_tree st1) = Inr (r, out)"
    by (cases "process_file main_text out_path p is_fomc g (out_tree st1)")
       (auto simp: Let_def st1_def)
  show ?case
  proof (cases r)
    case None
    with Cons.prems(1) html pf
    have "tree_loop main_text out_path is_fomc g paths (st1\<lparr>out_tree := out\<rparr>) = Inr st'"
      by (simp add: Let_def st1_def)
    from Cons.IH[OF this] inv1 show ?thesis by simp
  next
    case (Some t)
    obtain chars tokens c where t: "t = (chars, tokens, c)" by (cases t)
    have tok: "tokens = size c" using pf Some t size_tokens by blast
    from Cons.prems(1) html pf Some t
    have "tree_loop main_text out_path is_fomc g paths
            (st1\<lparr>total_files := total_files st1 + 1, total_chars := total_chars st1 + chars,
                 total_tokens := total_tokens st1 + tokens, counter := counter st1 + c,
                 out_tree := out\<rparr>) = Inr st'"
      by (simp add: Let_def st1_def)
    from Cons.IH[OF this] inv1 tok show ?thesis by simp
  qed
qed

lemma tree_loop_append:
  "tree_loop main_text out_path is_fomc g (pre @ post) st =
     (case tree_loop main_text out_path is_fomc g pre st of
        Inl e \<Rightarrow> Inl e
      | Inr st' \<Rightarrow> tree_loop main_text out_path is_fomc g post st')"
proof (induction pre arbitrary: st)
  case Nil
  show ?case by simp
next
  case (Cons p pre)
  show ?case
    by (simp add: Cons.IH Let_def split: sum.splits option.splits prod.splits)
qed

lemma tree_loop_aggregates:
  "aggregates st1 = aggregates st2 \<Longrightarrow>
   map_sum id aggregates (tree_loop main_text out_path is_fomc g paths st1)
     = map_sum id aggregates (tree_loop main_text out_path is_fomc g paths st2)"
proof (induction paths arbitrary: st1 st2)
  case Nil
  then show ?case by simp
next
  case (Cons p paths)
  show ?case
  proof (cases "read_html p")
    case (Inl e)
    then show ?thesis by simp
  next
    case (Inr html)
    define t1 where "t1 = profile_file (path p) (extract_text main_text html False None)
      (extract_text main_text html is_fomc g) is_fomc st1"
    define t2 where "t2 = profile_file (path p) (extract_text main_text html False None)
      (extract_text main_text html is_fomc g) is_fomc st2"
    have agg: "aggregates t1 = aggregates t2"
      using Cons.prems by (simp add: aggregates_def t1_def t2_def profile_file_keeps)
    then have out: "out_tree t1 = out_tree t2" by (simp add: aggregates_def)
    show ?thesis
    proof (cases "process_file main_text out_path p is_fomc g (out_tree t2)")
      case (Inl e)
      with Inr out show ?thesis by (simp add: Let_def t1_def[symmetric] t2_def[symmetric])
    next
      case pf: (Inr res)
      obtain r out' where res: "res = (r, out')" by (cases res)
      show ?thesis
      proof (cases r)
        case None
        have "aggregates (t1\<lparr>out_tree := out'\<rparr>) = aggregates (t2\<lparr>out_tree := out'\<rparr>)"
          using agg by (simp add: aggregates_def)
        from Cons.IH[OF this] Inr pf res None out show ?thesis
          by (simp add: Let_def t1_def[symmetric] t2_def[symmetric])
      next
        case (Some t)
        obtain chars tokens c where t: "t = (chars, tokens, c)" by (cases t)
        have "aggregates (t1\<lparr>total_files := total_files t1 + 1,
                  total_chars := total_chars t1 + chars,
                  total_tokens := total_tokens t1 + tokens, counter := counter t1 + c,
                  out_tree := out'\<rparr>)
            = aggregates (t2\<lparr>total_files := total_files t2 + 1,
                  total_chars := total_chars t2 + chars,
                  total_tokens := total_tokens t2 + tokens, counter := counter t2 + c,
                  out_tree := out'\<rparr>)"
          using agg by (simp add: aggregates_def)
        from Cons.IH[OF this] Inr pf res Some t out show ?thesis
          by (simp add: Let_def t1_def[symmetric] t2_def[symmetric])
      qed
    qed
  qed
qed

lemma strip_blank: "list_all is_space (strip s) \<Longrightarrow> strip s = []"
proof (rule ccontr)
  assume all: "list_all is_space (strip s)" and ne: "strip s \<noteq> []"
  define e where "e = dropWhile is_space (rev (dropWhile is_space s))"
  have s: "strip s = rev e" by (simp add: strip_def e_def)
  with ne have "e \<noteq> []" by simp
  then have "\<not> is_space (hd e)" unfolding e_def by (rule dropWhile_hd)
  moreover have "hd e \<in> set (strip s)" using \<open>e \<noteq> []\<close> s by simp
  ultimately show False using all by (simp add: list_all_iff)
qed

lemma extract_text_blank:
  "list_all is_space (extract_text main_text html is_fomc g)
   \<Longrightarrow> extract_text main_text html is_fomc g = []"
  unfolding extract_text_def final_normalize_def Let_def by (rule strip_blank)

text \<open>A file whose cleaned text is empty changes the profile only.\<close>

lemma tree_loop_skip:
  assumes "read_html p = Inr html" and "extract_text main_text html is_fomc g = []"
  shows "tree_loop main_text out_path is_fomc g (p # paths) st =
     tree_loop main_text out_path is_fomc g paths
       (profile_file (path p) (extract_text main_text html False None) [] is_fomc st)"
  using assms by (simp add: process_file_def Let_def)

section \<open>The example files, evaluated\<close>

lemma hello_light: "extract_text id ''Hello world, hello'' False None = ''Hello world, hello''"
  by code_simp

lemma hello_tokens: "tokenize ''Hello world, hello'' = [''hello'', ''world'', ''hello'']"
  by code_simp

lemma hello_path: "txt_path ''a.html'' = ''a.txt''"
  by code_simp

lemma separator_strict: "extract_text id ''---'' True None = ''''"
  by code_simp

lemma hello_tree:
  "process_tree id txt_path [hello_file] False None None Map.empty = Inr hello_stats"
  by (simp add: process_tree_def read_html_def hello_file_def profile_file_def process_file_def
      hello_light hello_tokens hello_path ratio_18_18 hello_stats_def Let_def)

section \<open>The removal guard\<close>

text \<open>
  C1: in strict mode with a baseline of non-zero length the removal ratio is
  \<open>1 - len(filtered) / len(baseline)\<close>, computed in floats; if it is strictly greater
  than the guard, \<open>extract_text\<close> returns the baseline, which after the final
  normalisation is what light mode returns, and otherwise it returns the filtered text;
  with a baseline of length 0 the filtered text passes through. For a baseline of 1000
  characters, a filtered text of 550 characters and the guard 0.4, the ratio is the float
  next to 0.45, it exceeds the guard, and the guard yields the baseline.
\<close>

theorem removal_guard_decision:
  "(let baseline = remove_line_artifacts (remove_boilerplate (main_text html));
        filtered = filter_baseline baseline;
        ratio = fsub 1 (int_truediv (int (length filtered)) (int (length baseline)))
    in extract_text main_text html True removal_guard =
         final_normalize
           (if length baseline = 0 then filtered
            else if guard_of removal_guard < ratio then baseline else filtered)
       \<and> (length baseline \<noteq> 0 \<and> guard_of removal_guard < ratio \<longrightarrow>
            extract_text main_text html True removal_guard = final_normalize baseline
            \<and> extract_text main_text html True removal_guard
                = extract_text main_text html False removal_guard))
   \<and> (length b = 1000 \<and> length f = 550 \<longrightarrow>
        \<bar>removed_ratio b f - 45 / 100\<bar> < 1 / 10 ^ 15
        \<and> fl (4 / 10) < removed_ratio b f
        \<and> apply_guard b f (Some (fl (4 / 10))) = b
        \<and> apply_guard b f None = b)"
proof (intro conjI impI)
  show "let baseline = remove_line_artifacts (remove_boilerplate (main_text html));
        filtered = filter_baseline baseline;
        ratio = fsub 1 (int_truediv (int (length filtered)) (int (length baseline)))
    in extract_text main_text html True removal_guard =
         final_normalize
           (if length baseline = 0 then filtered
            else if guard_of removal_guard < ratio then baseline else filtered)
       \<and> (length baseline \<noteq> 0 \<and> guard_of removal_guard < ratio \<longrightarrow>
            extract_text main_text html True removal_guard = final_normalize baseline
            \<and> extract_text main_text html True removal_guard
                = extract_text main_text html False removal_guard)"
    by (simp add: extract_text_def strict_clean_def apply_guard_def removed_ratio_def Let_def)
next
  assume len: "length b = 1000 \<and> length f = 550"
  then have r: "removed_ratio b f = 2026619832316723 / 4503599627370496"
    by (simp add: removed_ratio_def ratio_550_1000)
  show "\<bar>removed_ratio b f - 45 / 100\<bar> < 1 / 10 ^ 15"
    by (simp add: r)
  show gt: "fl (4 / 10) < removed_ratio b f"
    unfolding r fl_tenths by simp
  show "apply_guard b f (Some (fl (4 / 10))) = b"
    using gt len by (simp add: apply_guard_def guard_of_def)
  show "apply_guard b f None = b"
    using gt len by (simp add: apply_guard_def guard_of_def DEFAULT_REMOVAL_GUARD_def)
qed

text \<open>
  The roster document with the guard 0.3: the baseline has 34 characters, the filtered
  text 22, the ratio exceeds the guard and strict mode returns what light mode returns.
  And a baseline of 1000 characters with a filtered text of 550.
\<close>

theorem removal_guard_decision_witness:
  "length (remove_line_artifacts (remove_boilerplate (id roster_doc))) \<noteq> 0
   \<and> guard_of (Some (fl (3 / 10)))
       < fsub 1 (int_truediv
           (int (length (filter_baseline (remove_line_artifacts (remove_boilerplate (id roster_doc))))))
           (int (length (remove_line_artifacts (remove_boilerplate (id roster_doc))))))
   \<and> extract_text id roster_doc True (Some (fl (3 / 10)))
       = extract_text id roster_doc False (Some (fl (3 / 10)))
   \<and> length (replicate 1000 CHR ''b'') = 1000 \<and> length (replicate 550 CHR ''f'') = 550
   \<and> apply_guard (replicate 1000 CHR ''b'') (replicate 550 CHR ''f'') (Some (fl (4 / 10)))
       = replicate 1000 CHR ''b''"
proof -
  have n: "length (remove_line_artifacts (remove_boilerplate (id roster_doc))) \<noteq> 0"
    unfolding id_apply roster_boilerplate roster_artifacts by (simp add: roster_text_def)
  have g: "guard_of (Some (fl (3 / 10)))
       < fsub 1 (int_truediv
           (int (length (filter_baseline (remove_line_artifacts (remove_boilerplate (id roster_doc))))))
           (int (length (remove_line_artifacts (remove_boilerplate (id roster_doc))))))"
    unfolding id_apply roster_boilerplate roster_artifacts roster_filtered roster_lengths
      ratio_22_34 guard_of_def fl_tenths
    by simp
  note t = removal_guard_decision
    [of id roster_doc "Some (fl (3 / 10))" "replicate 1000 CHR ''b''" "replicate 550 CHR ''f''",
      unfolded Let_def]
  from t n g have 1: "extract_text id roster_doc True (Some (fl (3 / 10)))
        = extract_text id roster_doc False (Some (fl (3 / 10)))"
    by blast
  have l: "length (replicate 1000 CHR ''b'') = 1000 \<and> length (replicate 550 CHR ''f'') = 550"
    by simp
  from t l have 2: "apply_guard (replicate 1000 CHR ''b'') (replicate 550 CHR ''f'') (Some (fl (4 / 10)))
       = replicate 1000 CHR ''b''"
    by blast
  from n g 1 l 2 show ?thesis by blast
qed

section \<open>Line filtering in strict mode\<close>

text \<open>
  C2: in strict mode a line of the baseline is kept in the filtered text if and only if
  it is classified narrative or it is not classified garbage. So only a garbage
  classification removes a line, a narrative classification keeps a line that is also
  classified garbage, and a line for which both predicates are false is kept.
\<close>

theorem strict_filter_rule:
  "keep_lines lines = filter (\<lambda>line. line_is_narrative line \<or> \<not> line_is_garbage line) lines
   \<and> filter_baseline baseline =
       join_nl (filter (\<lambda>line. line_is_narrative line \<or> \<not> line_is_garbage line)
                  (split_nl baseline))"
  by (simp add: filter_baseline_def keep_lines_filter)

text \<open>
  A line that is narrative and garbage at once is kept, a roster line is removed, and an
  empty line, which is neither, is kept.
\<close>

theorem strict_filter_rule_witness:
  "line_is_narrative ''rate, a, b, c, d, e'' \<and> line_is_garbage ''rate, a, b, c, d, e''
   \<and> line_is_garbage ''a,b,c,d e f''
   \<and> keep_lines [''rate, a, b, c, d, e'', ''a,b,c,d e f'', ''''] = [''rate, a, b, c, d, e'', '''']"
proof -
  have 1: "line_is_narrative ''rate, a, b, c, d, e''" by code_simp
  have 2: "line_is_garbage ''rate, a, b, c, d, e''" by code_simp
  have 3: "line_is_garbage ''a,b,c,d e f''" by code_simp
  have 4: "\<not> line_is_narrative ''a,b,c,d e f''" by code_simp
  have 5: "\<not> line_is_garbage ''''" by code_simp
  show ?thesis
    using strict_filter_rule [of "[''rate, a, b, c, d, e'', ''a,b,c,d e f'', '''']"] 1 2 3 4 5
    by simp
qed

section \<open>The subsequence invariant\<close>

text \<open>
  C3 as stated: the lines of the text that strict mode returns are a subsequence of the
  lines of the baseline. The final normalisation edits lines, so this fails: for the
  roster document the returned text is the line of twenty \<open>x\<close>, while the baseline holds
  that line with two leading blanks, and the light-mode output holds it with one. And
  when the filter removes every line, the filtered text is empty and its single, empty
  line is no line of the baseline, even before the normalisation.
\<close>

theorem returned_lines_counterexample:
  "\<not> subseq (split_nl (extract_text id roster_doc True None))
        (split_nl (remove_line_artifacts (remove_boilerplate roster_doc)))
   \<and> \<not> subseq (split_nl (extract_text id roster_doc True None))
        (split_nl (extract_text id roster_doc False None))
   \<and> \<not> subseq (split_nl (filter_baseline ''a,b,c,d e f'')) (split_nl ''a,b,c,d e f'')"
  unfolding roster_strict_default roster_light roster_boilerplate roster_artifacts roster_lines
    roster_line_filtered
  by simp

text \<open>
  C3, amended: the lines kept by the filter are an order-preserving subsequence of the
  lines of the baseline, and, when at least one line is kept, they are the lines of the
  filtered text and the lines of the text that the guard selects are a subsequence of the
  lines of the baseline; all of this before the final normalisation.
\<close>

theorem kept_lines_subsequence:
  "subseq (keep_lines (split_nl baseline)) (split_nl baseline)
   \<and> (keep_lines (split_nl baseline) \<noteq> [] \<longrightarrow>
        split_nl (filter_baseline baseline) = keep_lines (split_nl baseline)
        \<and> subseq (split_nl (filter_baseline baseline)) (split_nl baseline)
        \<and> subseq (split_nl (apply_guard baseline (filter_baseline baseline) removal_guard))
             (split_nl baseline))"
proof (intro conjI impI)
  show sub: "subseq (keep_lines (split_nl baseline)) (split_nl baseline)"
    by (simp add: keep_lines_filter)
  assume ne: "keep_lines (split_nl baseline) \<noteq> []"
  have "\<And>l. l \<in> set (keep_lines (split_nl baseline)) \<Longrightarrow> NL \<notin> set l"
    by (auto simp: keep_lines_filter dest: split_nl_no_NL)
  with ne show eq: "split_nl (filter_baseline baseline) = keep_lines (split_nl baseline)"
    unfolding filter_baseline_def by (rule split_join)
  show sub2: "subseq (split_nl (filter_baseline baseline)) (split_nl baseline)"
    using sub eq by simp
  show "subseq (split_nl (apply_guard baseline (filter_baseline baseline) removal_guard))
             (split_nl baseline)"
  proof -
    have "apply_guard baseline (filter_baseline baseline) removal_guard = baseline
        \<or> apply_guard baseline (filter_baseline baseline) removal_guard = filter_baseline baseline"
      by (simp add: apply_guard_def Let_def)
    then show ?thesis using sub2 by auto
  qed
qed

theorem kept_lines_subsequence_witness:
  "keep_lines (split_nl roster_text) \<noteq> []
   \<and> split_nl (filter_baseline roster_text) = [''  xxxxxxxxxxxxxxxxxxxx'']
   \<and> subseq (split_nl (filter_baseline roster_text)) (split_nl roster_text)"
  using kept_lines_subsequence [of roster_text None]
  by (simp add: roster_kept)

section \<open>The recommended guard\<close>





section \<open>Failures of a single file\<close>

text \<open>
  C5 says that a failure on one file never aborts \<open>process_tree\<close>. The code retries a
  failed read once and lets the exception of the retry, or of the write, leave
  \<open>process_tree\<close>: a tree whose first file cannot be read, or cannot be written for,
  yields the exception and no statistics, whatever the other files are, although the
  readable file alone yields its statistics.
\<close>

theorem process_tree_aborts_on_file_failure:
  "process_tree main_text out_path (unreadable_file # paths) is_fomc removal_guard collector out
     = Inl OSError
   \<and> process_tree id txt_path [hello_file\<lparr>writable := False\<rparr>, hello_file] False None None Map.empty
     = Inl OSError
   \<and> process_tree id txt_path [hello_file] False None None Map.empty = Inr hello_stats
   \<and> total_files hello_stats = 1"
proof (intro conjI)
  show "process_tree main_text out_path (unreadable_file # paths) is_fomc removal_guard collector out
     = Inl OSError"
    by (simp add: process_tree_def read_html_def unreadable_file_def)
  show "process_tree id txt_path [hello_file\<lparr>writable := False\<rparr>, hello_file] False None None Map.empty
     = Inl OSError"
    by (simp add: process_tree_def read_html_def hello_file_def profile_file_def process_file_def
        hello_light hello_tokens ratio_18_18 Let_def)
  show "process_tree id txt_path [hello_file] False None None Map.empty = Inr hello_stats"
    by (rule hello_tree)
  show "total_files hello_stats = 1"
    by (simp add: hello_stats_def)
qed

section \<open>Light mode\<close>

text \<open>
  C6: light-mode extraction does not depend on the guard argument (any two values,
  \<open>None\<close> included, give the same text) nor on the line classification: it is the
  removal of boilerplate phrases and of structural-artifact lines, followed by the final
  normalisation.
\<close>

theorem light_mode_ignores_guard:
  "extract_text main_text html False g1 = extract_text main_text html False g2
   \<and> extract_text main_text html False g1 =
       final_normalize (remove_line_artifacts (remove_boilerplate (main_text html)))"
  by (simp add: extract_text_def)

section \<open>Monotonicity of the guard\<close>

text \<open>
  C7: for a fixed document the guard decision is monotone in the threshold. If strict
  mode with the guard \<open>g\<close> keeps the filtered text, it keeps it with every guard
  \<open>g' \<ge> g\<close>, before and after the final normalisation.
\<close>

theorem guard_monotone:
  assumes "g \<le> g'"
  shows "(strict_clean text (Some g) = filter_baseline (remove_line_artifacts text)
          \<longrightarrow> strict_clean text (Some g') = filter_baseline (remove_line_artifacts text))
     \<and> (extract_text main_text html True (Some g) =
            final_normalize (filter_baseline (remove_line_artifacts (remove_boilerplate (main_text html))))
          \<longrightarrow> extract_text main_text html True (Some g') =
            final_normalize (filter_baseline (remove_line_artifacts (remove_boilerplate (main_text html)))))"
  using assms
  by (auto simp: extract_text_def strict_clean_def apply_guard_def guard_of_def Let_def
      split: if_splits)

text \<open>
  The roster document loses 35 percent of its baseline: the guards 0.4 and 0.6 keep the
  filtered text, the guard 0.3 reverts to the baseline.
\<close>

theorem guard_monotone_witness:
  "fl (4 / 10) \<le> fl (6 / 10)
   \<and> strict_clean roster_text (Some (fl (4 / 10))) = filter_baseline (remove_line_artifacts roster_text)
   \<and> strict_clean roster_text (Some (fl (6 / 10))) = filter_baseline (remove_line_artifacts roster_text)
   \<and> extract_text id roster_doc True (Some (fl (4 / 10))) = ''xxxxxxxxxxxxxxxxxxxx''
   \<and> extract_text id roster_doc True (Some (fl (6 / 10))) = ''xxxxxxxxxxxxxxxxxxxx''
   \<and> extract_text id roster_doc True (Some (fl (3 / 10))) = ''a,b,c,d e f\<newline> xxxxxxxxxxxxxxxxxxxx''"
proof -
  have le: "fl (4 / 10) \<le> fl (6 / 10)" unfolding fl_tenths by simp
  have e: "strict_clean roster_text (Some (fl (4 / 10))) = filter_baseline (remove_line_artifacts roster_text)"
    unfolding roster_clean_keeps roster_artifacts roster_filtered by (rule refl)
  have f: "extract_text id roster_doc True (Some (fl (4 / 10))) =
      final_normalize (filter_baseline (remove_line_artifacts (remove_boilerplate (id roster_doc))))"
    unfolding roster_strict_keeps id_apply roster_boilerplate roster_artifacts roster_filtered
      roster_normal
    by (rule refl)
  from guard_monotone [OF le, of roster_text id roster_doc] e f
  have "strict_clean roster_text (Some (fl (6 / 10))) = filter_baseline (remove_line_artifacts roster_text)"
    and "extract_text id roster_doc True (Some (fl (6 / 10))) =
      final_normalize (filter_baseline (remove_line_artifacts (remove_boilerplate (id roster_doc))))"
    by blast+
  then have "strict_clean roster_text (Some (fl (6 / 10))) = filter_baseline (remove_line_artifacts roster_text)"
    and "extract_text id roster_doc True (Some (fl (6 / 10))) = ''xxxxxxxxxxxxxxxxxxxx''"
    unfolding id_apply roster_boilerplate roster_artifacts roster_filtered roster_normal
    by blast+
  with le e roster_strict_keeps roster_strict_reverts show ?thesis by blast
qed

section \<open>The soft skip\<close>

text \<open>
  C8: a file that can be read and whose cleaned text is empty or holds white space only
  is skipped: \<open>process_file\<close> returns \<open>None\<close> and leaves the output tree as it is, and
  \<open>process_tree\<close> over a tree that holds the file ends as it does without the file,
  with the same file, character and token totals, the same token counter and the same
  output tree, so the file itself raises nothing.
\<close>

theorem empty_file_soft_skip:
  assumes "read_html f = Inr html"
    and "list_all is_space (extract_text main_text html is_fomc removal_guard)"
  shows "process_file main_text out_path f is_fomc removal_guard out = Inr (None, out)
     \<and> map_sum id aggregates
         (process_tree main_text out_path (pre @ f # post) is_fomc removal_guard collector out)
       = map_sum id aggregates
         (process_tree main_text out_path (pre @ post) is_fomc removal_guard collector out)"
proof
  have empty: "extract_text main_text html is_fomc removal_guard = []"
    using assms(2) by (rule extract_text_blank)
  show "process_file main_text out_path f is_fomc removal_guard out = Inr (None, out)"
    using assms(1) empty by (simp add: process_file_def)
  define st0 where "st0 = \<lparr>total_files = 0, total_chars = 0, total_tokens = 0, counter = {#},
        removal_ratios = [], removed_collector = collector, out_tree = out\<rparr>"
  show "map_sum id aggregates
         (process_tree main_text out_path (pre @ f # post) is_fomc removal_guard collector out)
       = map_sum id aggregates
         (process_tree main_text out_path (pre @ post) is_fomc removal_guard collector out)"
  proof (cases "tree_loop main_text out_path is_fomc removal_guard pre st0")
    case (Inl e)
    then show ?thesis
      by (simp add: process_tree_def tree_loop_append st0_def[symmetric])
  next
    case (Inr st)
    define st1 where
      "st1 = profile_file (path f) (extract_text main_text html False None) [] is_fomc st"
    have agg: "aggregates st1 = aggregates st"
      by (simp add: st1_def aggregates_def profile_file_keeps)
    have step: "tree_loop main_text out_path is_fomc removal_guard (f # post) st =
        tree_loop main_text out_path is_fomc removal_guard post st1"
      unfolding st1_def by (rule tree_loop_skip[OF assms(1) empty])
    have l: "process_tree main_text out_path (pre @ f # post) is_fomc removal_guard collector out
        = tree_loop main_text out_path is_fomc removal_guard post st1"
      unfolding process_tree_def st0_def[symmetric] tree_loop_append Inr
      by (simp only: sum.case step)
    have r: "process_tree main_text out_path (pre @ post) is_fomc removal_guard collector out
        = tree_loop main_text out_path is_fomc removal_guard post st"
      unfolding process_tree_def st0_def[symmetric] tree_loop_append Inr
      by (simp only: sum.case)
    show ?thesis unfolding l r by (rule tree_loop_aggregates[OF agg])
  qed
qed

theorem empty_file_soft_skip_witness:
  "read_html separator_file = Inr ''---''
   \<and> list_all is_space (extract_text id ''---'' True None)
   \<and> process_file id txt_path separator_file True None Map.empty = Inr (None, Map.empty)
   \<and> map_sum id aggregates (process_tree id txt_path ([hello_file] @ separator_file # []) True None None Map.empty)
       = map_sum id aggregates (process_tree id txt_path ([hello_file] @ []) True None None Map.empty)"
proof -
  have r: "read_html separator_file = Inr ''---''"
    by (simp add: read_html_def separator_file_def)
  have b: "list_all is_space (extract_text id ''---'' True None)"
    by (simp add: separator_strict)
  from empty_file_soft_skip [OF r b] r b show ?thesis by blast
qed

section \<open>Idempotence of the final normalisation\<close>

lemma NL_not_hspace: "\<not> is_hspace NL" "NL \<noteq> SP" "NL \<noteq> TAB" "SP \<noteq> TAB"
  by (simp_all add: is_hspace_def NL_def SP_def TAB_def)

lemma sub_hspace_Nil: "sub_hspace s = [] \<longleftrightarrow> s = []"
  by (cases s) auto

lemma sub_hspace_hd: "s \<noteq> [] \<Longrightarrow> is_hspace (hd (sub_hspace s)) = is_hspace (hd s)"
  by (cases s) (auto simp: is_hspace_def)

lemma hs_ok_sub_hspace: "hs_ok (sub_hspace s)"
proof (induction s rule: sub_hspace.induct)
  case 1 show ?case by simp
next
  case (2 c cs)
  show ?case
  proof (cases "is_hspace c")
    case True
    have "dropWhile is_hspace cs \<noteq> [] \<Longrightarrow> \<not> is_hspace (hd (sub_hspace (dropWhile is_hspace cs)))"
      using dropWhile_hd[of is_hspace cs] by (simp add: sub_hspace_hd)
    with True 2 show ?thesis by (auto simp: NL_not_hspace sub_hspace_Nil)
  next
    case False
    with 2 show ?thesis by (auto simp: is_hspace_def)
  qed
qed

lemma hs_ok_fix: "hs_ok s \<Longrightarrow> sub_hspace s = s"
proof (induction s)
  case Nil show ?case by simp
next
  case (Cons c cs)
  show ?case
  proof (cases "c = SP")
    case True
    with Cons.prems have "cs = [] \<or> \<not> is_hspace (hd cs)" by simp
    then have "dropWhile is_hspace cs = cs" by (cases cs) auto
    with True Cons show ?thesis by (simp add: is_hspace_def)
  next
    case False
    with Cons show ?thesis by (simp add: is_hspace_def)
  qed
qed

lemma hs_ok_suffix: "hs_ok (xs @ ys) \<Longrightarrow> hs_ok ys"
  by (induction xs) auto

lemma hs_ok_prefix: "hs_ok (xs @ ys) \<Longrightarrow> hs_ok xs"
proof (induction xs)
  case Nil show ?case by simp
next
  case (Cons c cs)
  then show ?case by (cases cs) auto
qed

lemma hs_ok_NLs: "hs_ok (replicate n NL @ s) = hs_ok s"
  by (induction n) (auto simp: NL_not_hspace)

lemma takeWhile_NL: "takeWhile (\<lambda>d. d = NL) cs = replicate (length (takeWhile (\<lambda>d. d = NL) cs)) NL"
  by (induction cs) auto

lemma sub_newlines_Nil: "sub_newlines s = [] \<longleftrightarrow> s = []"
  by (cases s) auto

lemma sub_newlines_hd: "s \<noteq> [] \<Longrightarrow> hd (sub_newlines s) = hd s"
  by (cases s) auto

lemma hs_ok_sub_newlines: "hs_ok s \<Longrightarrow> hs_ok (sub_newlines s)"
proof (induction s rule: sub_newlines.induct)
  case 1 show ?case by simp
next
  case (2 c cs)
  show ?case
  proof (cases "c = NL")
    case True
    let ?r = "dropWhile (\<lambda>d. d = NL) cs"
    have "hs_ok (takeWhile (\<lambda>d. d = NL) cs @ ?r)" using "2.prems" by simp
    then have "hs_ok ?r" by (rule hs_ok_suffix)
    with 2 True have ih: "hs_ok (sub_newlines ?r)" by simp
    have a: "hs_ok ([NL, NL] @ sub_newlines ?r)"
      using ih hs_ok_NLs[of 2 "sub_newlines ?r"] by (simp add: numeral_2_eq_2)
    have b: "hs_ok ((NL # takeWhile (\<lambda>d. d = NL) cs) @ sub_newlines ?r)"
      using ih hs_ok_NLs[of "Suc (length (takeWhile (\<lambda>d. d = NL) cs))" "sub_newlines ?r"]
        takeWhile_NL[of cs] by (metis append_Cons replicate_Suc)
    from a b True show ?thesis by simp
  next
    case False
    with 2 show ?thesis by (auto simp: sub_newlines_Nil sub_newlines_hd)
  qed
qed


lemma nl_ok_NL_iff: "nl_ok (NL # s) \<longleftrightarrow> \<not> prefix [NL, NL] s \<and> nl_ok s"
  by simp

lemma nl_ok_sub_newlines: "nl_ok (sub_newlines s)"
proof (induction s rule: sub_newlines.induct)
  case 1 show ?case by simp
next
  case (2 c cs)
  show ?case
  proof (cases "c = NL")
    case True
    let ?t = "takeWhile (\<lambda>d. d = NL) cs"
    let ?r = "dropWhile (\<lambda>d. d = NL) cs"
    let ?o = "sub_newlines ?r"
    from 2 True have ih: "nl_ok ?o" by simp
    have "?r = [] \<or> hd ?r \<noteq> NL"
      using dropWhile_hd[of "\<lambda>d. d = NL" cs] by blast
    then have nohd: "?o = [] \<or> hd ?o \<noteq> NL"
      by (metis sub_newlines_Nil sub_newlines_hd)
    have one: "nl_ok (NL # ?o)" using ih nohd by (cases ?o) auto
    have two: "nl_ok (NL # NL # ?o)" using ih nohd by (cases ?o) auto
    show ?thesis
    proof (cases "2 \<le> length ?t")
      case True
      with \<open>c = NL\<close> two show ?thesis by simp
    next
      case False
      then have "length ?t = 0 \<or> length ?t = 1" by arith
      then have "?t = [] \<or> ?t = [NL]"
        using takeWhile_NL[of cs] by (metis One_nat_def replicate_0 replicate_Suc)
      with False \<open>c = NL\<close> one two show ?thesis by auto
    qed
  next
    case False
    with 2 show ?thesis by simp
  qed
qed

lemma nl_ok_suffix: "nl_ok (xs @ ys) \<Longrightarrow> nl_ok ys"
  by (induction xs) auto

lemma nl_ok_fix: "nl_ok s \<Longrightarrow> sub_newlines s = s"
proof (induction s rule: sub_newlines.induct)
  case 1 show ?case by simp
next
  case (2 c cs)
  show ?case
  proof (cases "c = NL")
    case True
    let ?t = "takeWhile (\<lambda>d. d = NL) cs"
    let ?r = "dropWhile (\<lambda>d. d = NL) cs"
    have short: "\<not> 2 \<le> length ?t"
    proof
      assume "2 \<le> length ?t"
      then obtain n where "length ?t = Suc (Suc n)" by (metis Suc_le_D numeral_2_eq_2 Suc_le_mono)
      then have "?t = NL # NL # replicate n NL" using takeWhile_NL[of cs] by simp
      then have "prefix [NL, NL] (?t @ ?r)" by simp
      then have "prefix [NL, NL] cs" by simp
      with "2.prems" True show False by simp
    qed
    have "nl_ok cs" using "2.prems" by simp
    have "nl_ok (?t @ ?r)" using \<open>nl_ok cs\<close> by simp
    then have "nl_ok ?r" by (rule nl_ok_suffix)
    with 2 True have "sub_newlines ?r = ?r" by simp
    with True short show ?thesis by simp
  next
    case False
    with 2 show ?thesis by simp
  qed
qed

lemma nl_ok_prefix: "nl_ok (xs @ ys) \<Longrightarrow> nl_ok xs"
proof (induction xs)
  case Nil show ?case by simp
next
  case (Cons c cs)
  then have "nl_ok cs" by simp
  moreover have "\<not> prefix [NL, NL, NL] (c # cs)"
    using Cons.prems by (auto simp: prefix_def)
  ultimately show ?case by simp
qed

lemma strip_split: "\<exists>a b. dropWhile is_space s = strip s @ b \<and> s = a @ strip s @ b"
proof -
  let ?d = "dropWhile is_space s"
  have "rev ?d = takeWhile is_space (rev ?d) @ dropWhile is_space (rev ?d)" by simp
  then have "?d = strip s @ rev (takeWhile is_space (rev ?d))"
    unfolding strip_def by (metis rev_append rev_rev_ident)
  moreover have "s = takeWhile is_space s @ ?d" by simp
  ultimately show ?thesis by metis
qed

lemma strip_fix: "strip (strip s) = strip s"
proof -
  define d where "d = dropWhile is_space s"
  define e where "e = dropWhile is_space (rev d)"
  have dh: "d \<noteq> [] \<Longrightarrow> \<not> is_space (hd d)"
    unfolding d_def by (rule dropWhile_hd)
  have eh: "e \<noteq> [] \<Longrightarrow> \<not> is_space (hd e)"
    unfolding e_def by (rule dropWhile_hd)
  have s: "strip s = rev e" by (simp add: strip_def d_def e_def)
  have "rev d = takeWhile is_space (rev d) @ e" unfolding e_def by simp
  then have b: "d = rev e @ rev (takeWhile is_space (rev d))"
    by (metis rev_append rev_rev_ident)
  have front: "dropWhile is_space (rev e) = rev e"
  proof (cases "e = []")
    case True
    then show ?thesis by simp
  next
    case False
    then have ne: "rev e \<noteq> []" by simp
    then have "hd (rev e) = hd d" using b by (metis hd_append2)
    moreover have "d \<noteq> []" using b ne by auto
    ultimately have "\<not> is_space (hd (rev e))" using dh by simp
    with ne show ?thesis by (rule dropWhile_same)
  qed
  have rear: "dropWhile is_space e = e"
  proof (cases "e = []")
    case True
    then show ?thesis by simp
  next
    case False
    with eh show ?thesis by (simp add: dropWhile_same)
  qed
  have "strip (rev e) = rev e" by (simp add: strip_def front rear)
  with s show ?thesis by simp
qed

text \<open>
  C9: the final whitespace normalisation is idempotent: on its own output it changes nothing.
\<close>

theorem final_normalize_idempotent: "final_normalize (final_normalize text) = final_normalize text"
proof -
  let ?m = "sub_newlines (sub_hspace text)"
  obtain a b where ab: "?m = a @ strip ?m @ b" using strip_split[of ?m] by blast
  have "hs_ok ?m" by (simp add: hs_ok_sub_hspace hs_ok_sub_newlines)
  then have "hs_ok (strip ?m)" using ab by (metis hs_ok_prefix hs_ok_suffix)
  then have 1: "sub_hspace (strip ?m) = strip ?m" by (rule hs_ok_fix)
  have "nl_ok ?m" by (rule nl_ok_sub_newlines)
  then have "nl_ok (strip ?m)" using ab by (metis nl_ok_prefix nl_ok_suffix)
  then have 2: "sub_newlines (strip ?m) = strip ?m" by (rule nl_ok_fix)
  show ?thesis unfolding final_normalize_def by (simp add: 1 2 strip_fix)
qed

section \<open>Token total and token counter\<close>

text \<open>
  C10: when \<open>process_tree\<close> returns, the total token count is the sum of the counts in the
  returned counter; every processed file adds the length of its token list to the one and
  the multiset of that list to the other.
\<close>

theorem token_total_matches_counter:
  "process_tree main_text out_path paths is_fomc removal_guard collector out = Inr st
   \<Longrightarrow> total_tokens st = size (counter st)"
  unfolding process_tree_def by (erule tree_loop_tokens) simp

theorem token_total_matches_counter_witness:
  "process_tree id txt_path [hello_file] False None None Map.empty = Inr hello_stats
   \<and> total_tokens hello_stats = size (counter hello_stats)
   \<and> total_tokens hello_stats = 3"
  using token_total_matches_counter [OF hello_tree] hello_tree
  by (simp add: hello_stats_def)

end
